theory Spec2Isabelle
  imports Complex_Main "HOL-Library.Sublist" "HOL-Library.AList" "HOL-Library.Multiset"
begin

section \<open>Python values used by \<^verbatim>\<open>solving.py\<close>\<close>

text \<open>
  Exceptions are values: every function that can raise returns \<open>error + 'a\<close>, with
  \<open>Inl\<close> the exception. Floating-point bounds, coefficients and fluxes are read as
  reals; the module only compares them with zero, negates them, adds two of them or
  takes one reciprocal.
\<close>

datatype error =
    NameError string
  | KeyError string
  | ValueError string
  | IndexError
  | ZeroDivisionError
  | OptimizationError

text \<open>
  A Python \<^verbatim>\<open>dict\<close> keeps insertion order, and \<^verbatim>\<open>d[k] = v\<close> overwrites in
  place or appends: this is \<open>AList.update\<close> on an association list. Membership
  \<^verbatim>\<open>a in b\<close> on strings is \<open>sublist a b\<close> (contiguous).
\<close>

type_synonym 'v pydict = "(string \<times> 'v) list"

definition getitem :: "'v pydict \<Rightarrow> string \<Rightarrow> error + 'v" where
  "getitem d k = (case map_of d k of None \<Rightarrow> Inl (KeyError k) | Some v \<Rightarrow> Inr v)"

text \<open>\<^verbatim>\<open>s.replace(old, new)\<close>: every non-overlapping occurrence, left to right.\<close>

function py_replace :: "string \<Rightarrow> string \<Rightarrow> string \<Rightarrow> string" where
  "py_replace old new s =
     (if old = [] then new @ concat (map (\<lambda>c. c # new) s)
      else if s = [] then []
      else if prefix old s then new @ py_replace old new (drop (length old) s)
      else hd s # py_replace old new (tl s))"
  by pat_completeness auto
termination
  by (relation "measure (\<lambda>(old, new, s). length s)") auto

declare py_replace.simps [simp del]

text \<open>\<^verbatim>\<open>s.split(c)\<close> for a one-character separator: never the empty list.\<close>

fun py_split :: "char \<Rightarrow> string \<Rightarrow> string list" where
  "py_split c [] = [[]]"
| "py_split c (x # xs) =
     (if x = c then [] # py_split c xs
      else (case py_split c xs of
              [] \<Rightarrow> [[x]]
            | w # ws \<Rightarrow> (x # w) # ws))"

text \<open>\<^verbatim>\<open>str(i)\<close> for a non-negative integer.\<close>

definition digit_char :: "nat \<Rightarrow> char" where
  "digit_char d = char_of (48 + d)"

fun str_nat :: "nat \<Rightarrow> string" where
  "str_nat n = (if n < 10 then [digit_char n] else str_nat (n div 10) @ [digit_char (n mod 10)])"

declare str_nat.simps [simp del]

section \<open>The model as this module sees it\<close>

text \<open>
  The modelling library owns the model. This module reads and writes reaction
  identifiers, bounds and stoichiometric coefficients, the objective (its name,
  direction and linear coefficients) and the added constraints and variables (name,
  lower bound, upper bound).
\<close>

record reaction =
  reaction_id :: string
  lower_bound :: real
  upper_bound :: real
  metabolites :: "real pydict"

datatype variable = Variable (var_name: string) (var_str: string)

datatype direction = Max | Min

record objective =
  obj_name :: string
  obj_direction :: direction
  obj_coefficients :: "(variable \<times> real) list"

record model =
  reactions :: "reaction list"
  objective :: objective
  cons_vars :: "(string \<times> real option \<times> real option) list"

text \<open>\<^verbatim>\<open>model.reactions.get_by_id(i)\<close>: the reaction with that identifier, or KeyError.\<close>

definition get_by_id :: "reaction list \<Rightarrow> string \<Rightarrow> error + reaction" where
  "get_by_id rs i =
     (case find (\<lambda>r. reaction_id r = i) rs of None \<Rightarrow> Inl (KeyError i) | Some r \<Rightarrow> Inr r)"

text \<open>
  The library's bound setters check the pair before writing: a lower bound above the
  upper bound is rejected with ValueError.
\<close>

definition set_lower_bound :: "reaction \<Rightarrow> real \<Rightarrow> error + reaction" where
  "set_lower_bound r v =
     (if v > upper_bound r then Inl (ValueError ''The lower bound must be less than or equal to the upper bound'')
      else Inr (r\<lparr>lower_bound := v\<rparr>))"

definition set_upper_bound :: "reaction \<Rightarrow> real \<Rightarrow> error + reaction" where
  "set_upper_bound r v =
     (if lower_bound r > v then Inl (ValueError ''The lower bound must be less than or equal to the upper bound'')
      else Inr (r\<lparr>upper_bound := v\<rparr>))"

text \<open>
  A reaction fetched from a model is the object stored there: writing one of its
  attributes is writing the stored reaction.
\<close>

fun store_reaction :: "reaction \<Rightarrow> reaction list \<Rightarrow> reaction list" where
  "store_reaction r' [] = []"
| "store_reaction r' (x # xs) =
     (if reaction_id x = reaction_id r' then r' # xs else x # store_reaction r' xs)"

text \<open>
  \<^verbatim>\<open>model.add_reaction(r)\<close> appends \<open>r\<close>; the library ignores a reaction whose
  identifier the model already has.
\<close>

definition add_reaction :: "reaction list \<Rightarrow> reaction \<Rightarrow> reaction list" where
  "add_reaction rs r = (if reaction_id r \<in> reaction_id ` set rs then rs else rs @ [r])"

section \<open>\<^verbatim>\<open>rev2irrev\<close>\<close>

text \<open>
  The loop runs over the reactions of the input model and edits the copy
  \<^verbatim>\<open>exp_model\<close>, here the second argument.
\<close>

fun rev2irrev_loop :: "reaction list \<Rightarrow> reaction list \<Rightarrow> error + reaction list" where
  "rev2irrev_loop [] exp_model = Inr exp_model"
| "rev2irrev_loop (RXN # rest) exp_model =
     (case get_by_id exp_model (reaction_id RXN) of
        Inl e \<Rightarrow> Inl e
      | Inr rxn \<Rightarrow>
          if lower_bound rxn < 0 then
            (let rxn_reverse = rxn\<lparr>reaction_id := reaction_id rxn @ ''_reverse''\<rparr> in
             case set_lower_bound rxn 0 of
               Inl e \<Rightarrow> Inl e
             | Inr rxn' \<Rightarrow>
                 (case set_upper_bound rxn_reverse 0 of
                    Inl e \<Rightarrow> Inl e
                  | Inr rxn_reverse' \<Rightarrow>
                      rev2irrev_loop rest (add_reaction (store_reaction rxn' exp_model) rxn_reverse')))
          else rev2irrev_loop rest exp_model)"

definition rev2irrev :: "model \<Rightarrow> error + model" where
  "rev2irrev cobra_model =
     (case rev2irrev_loop (reactions cobra_model) (reactions cobra_model) of
        Inl e \<Rightarrow> Inl e
      | Inr rs \<Rightarrow> Inr (cobra_model\<lparr>reactions := rs\<rparr>))"

text \<open>The two halves of a split pair, as the code builds them.\<close>

definition forward_half :: "reaction \<Rightarrow> reaction" where
  "forward_half r = (if lower_bound r < 0 then r\<lparr>lower_bound := 0\<rparr> else r)"

definition reverse_half :: "reaction \<Rightarrow> reaction" where
  "reverse_half r = r\<lparr>reaction_id := reaction_id r @ ''_reverse'', upper_bound := 0\<rparr>"


section \<open>Collaborators\<close>

text \<open>
  What the module calls but does not define is a parameter. \<^verbatim>\<open>check_number_of_models\<close>
  comes from the sibling module \<^verbatim>\<open>buildingediting\<close>; the others belong to the modelling
  library, the solver and the process pool: the two flux variables of a reaction, freezing
  the objective as a constraint, one solve of the model, one variability step (the worker
  initialised with the model, the loopless flag and the sense, applied to one reaction
  identifier), and the order in which a pool hands back the items it was given.
  The last two fields stand for the two names of the next section, which the module never
  binds.
\<close>

record env =
  check_number_of_models :: "model \<Rightarrow> nat"
  forward_variable :: "reaction \<Rightarrow> variable"
  reverse_variable :: "reaction \<Rightarrow> variable"
  fix_objective_as_constraint :: "model \<Rightarrow> real \<Rightarrow> error + model"
  slim_optimize :: "model \<Rightarrow> real option"
  fva_step :: "model \<Rightarrow> bool \<Rightarrow> string \<Rightarrow> string \<Rightarrow> real"
  arrival :: "int \<Rightarrow> string list \<Rightarrow> string list"
  configuration_processes :: int
  add_pfba :: "model \<Rightarrow> real \<Rightarrow> error + model"

section \<open>Names bound in the module\<close>

text \<open>
  The names the module's \<^verbatim>\<open>import\<close> statements and \<^verbatim>\<open>def\<close>s bind, in source
  order. A global name that is neither here nor a Python builtin raises NameError when
  the line that uses it runs.
\<close>

definition module_names :: "string list" where
  "module_names =
     [''__all__'', ''chain'', ''np'', ''pd'', ''flux_analysis'', ''get_solution'', ''sutil'',
      ''check_number_of_models'', ''Zero'', ''_init_worker'', ''_fva_step'', ''logging'',
      ''TYPE_CHECKING'', ''List'', ''Optional'', ''Set'', ''Tuple'', ''Union'', ''warn'',
      ''ProcessPool'', ''time'', ''datetime'',
      ''pfba_Weighted'', ''add_pfba_Weighted'', ''get_weightings'',
      ''flux_variability_analysis'', ''pFBA_FVA_run'', ''get_sum_of_fluxes'', ''rev2irrev'',
      ''check_fba_fva_run'', ''get_pfba_fva_solution'']"

definition name_defined :: "string \<Rightarrow> bool" where
  "name_defined n \<longleftrightarrow> n \<in> set module_names"

section \<open>\<^verbatim>\<open>get_weightings\<close>\<close>

definition accounting :: "string \<Rightarrow> bool" where
  "accounting i \<longleftrightarrow>
     sublist ''constraint'' i \<or> sublist ''overall'' i \<or> sublist ''sum'' i \<or> take 2 i = ''EX''"

definition length_of_phase :: "reaction list \<Rightarrow> nat \<Rightarrow> error + real" where
  "length_of_phase rs i =
     (case get_by_id rs (''SUCROSE_v_gc_Linker_'' @ str_nat i) of
        Inl e \<Rightarrow> Inl e
      | Inr linker \<Rightarrow>
          (case getitem (metabolites linker) (''SUCROSE_v_gc_'' @ str_nat i) of
             Inl e \<Rightarrow> Inl e
           | Inr c \<Rightarrow> if - c = 0 then Inl ZeroDivisionError else Inr (1 / (- c))))"

text \<open>The inner loop over the reactions, for phase \<open>i\<close>; \<^verbatim>\<open>id[-1]\<close> raises on an empty identifier.\<close>

fun weight_reactions :: "nat \<Rightarrow> real \<Rightarrow> reaction list \<Rightarrow> real pydict \<Rightarrow> error + real pydict" where
  "weight_reactions i len [] weightings = Inr weightings"
| "weight_reactions i len (r # rs) weightings =
     (if accounting (reaction_id r) then
        weight_reactions i len rs (AList.update (reaction_id r) 0 weightings)
      else if reaction_id r = [] then Inl IndexError
      else if [last (reaction_id r)] = str_nat i then
        weight_reactions i len rs (AList.update (reaction_id r) len weightings)
      else weight_reactions i len rs weightings)"

text \<open>The outer loop over the phases \<^verbatim>\<open>range(1, number_of_models + 1)\<close>.\<close>

fun weight_phases :: "reaction list \<Rightarrow> nat list \<Rightarrow> real pydict \<Rightarrow> error + real pydict" where
  "weight_phases rs [] weightings = Inr weightings"
| "weight_phases rs (i # is) weightings =
     (case length_of_phase rs i of
        Inl e \<Rightarrow> Inl e
      | Inr len \<Rightarrow>
          (case weight_reactions i len rs weightings of
             Inl e \<Rightarrow> Inl e
           | Inr weightings' \<Rightarrow> weight_phases rs is weightings'))"

definition get_weightings :: "env \<Rightarrow> model \<Rightarrow> error + real pydict" where
  "get_weightings E m =
     (let number_of_models = check_number_of_models E m
      in weight_phases (reactions m) [1 ..< number_of_models + 1] [])"

section \<open>\<^verbatim>\<open>add_pfba_Weighted\<close>\<close>

text \<open>
  The text the loop matches keys against:
  \<^verbatim>\<open>w = str(v).split("=")[1].replace(" ", "").replace("<", "")\<close>.
\<close>

definition variable_text :: "variable \<Rightarrow> error + string" where
  "variable_text v =
     (case py_split CHR ''='' (var_str v) of
        a # b # rest \<Rightarrow> Inr (py_replace ''<'' [] (py_replace '' '' [] b))
      | _ \<Rightarrow> Inl IndexError)"

text \<open>
  The inner \<^verbatim>\<open>for rxn in weightings.keys()\<close> with its \<^verbatim>\<open>break\<close>; each key comes
  with its value \<^verbatim>\<open>weightings[rxn]\<close>.
\<close>

fun find_weighting :: "real pydict \<Rightarrow> string \<Rightarrow> real option" where
  "find_weighting [] w = None"
| "find_weighting ((rxn, x) # rest) w = (if sublist rxn w then Some x else find_weighting rest w)"

definition notice :: "string \<Rightarrow> string" where
  "notice w = ''Weightings for reaction '' @ w @ '' not found, so assuming weighting = 1''"

text \<open>The loop over the variables; the first component is what it prints.\<close>

fun weight_variables ::
  "real pydict \<Rightarrow> variable list \<Rightarrow> (variable \<times> real) list \<Rightarrow> string list \<times> (error + (variable \<times> real) list)" where
  "weight_variables weightings [] tempDict = ([], Inr tempDict)"
| "weight_variables weightings (v # vs) tempDict =
     (case variable_text v of
        Inl e \<Rightarrow> ([], Inl e)
      | Inr w \<Rightarrow>
          (case find_weighting weightings w of
             Some x \<Rightarrow> weight_variables weightings vs (AList.update v x tempDict)
           | None \<Rightarrow>
               (case weight_variables weightings vs (AList.update v 1 tempDict) of
                  (out, res) \<Rightarrow> (notice w # out, res))))"

text \<open>
  \<^verbatim>\<open>model.objective = objective\<close>: the argument is read as the objective the library
  builds from it, under the name the library gives it.
\<close>

definition install_objective :: "model \<Rightarrow> objective option \<Rightarrow> model" where
  "install_objective m obj = (case obj of None \<Rightarrow> m | Some ob \<Rightarrow> m\<lparr>objective := ob\<rparr>)"

text \<open>The one \<^verbatim>\<open>raise\<close> of the function.\<close>

definition duplicate_objective :: error where
  "duplicate_objective = ValueError ''The model already has a pFBA objective.''"

definition add_pfba_Weighted ::
  "env \<Rightarrow> model \<Rightarrow> real pydict option \<Rightarrow> objective option \<Rightarrow> real \<Rightarrow> string list \<times> (error + model)" where
  "add_pfba_Weighted E m weightings obj fraction_of_optimum =
     (case (case weightings of None \<Rightarrow> get_weightings E m | Some ws \<Rightarrow> Inr ws) of
        Inl e \<Rightarrow> ([], Inl e)
      | Inr ws \<Rightarrow>
          (let m1 = install_objective m obj in
           if obj_name (objective m1) = ''_pfba_objective'' then ([], Inl duplicate_objective)
           else
             (case fix_objective_as_constraint E m1 fraction_of_optimum of
                Inl e \<Rightarrow> ([], Inl e)
              | Inr m2 \<Rightarrow>
                  (let variables = concat (map (\<lambda>rxn. [forward_variable E rxn, reverse_variable E rxn])
                                               (reactions m2));
                       m3 = m2\<lparr>objective := \<lparr>obj_name = ''_pfba_objective'', obj_direction = Min,
                                               obj_coefficients = []\<rparr>\<rparr>
                   in case weight_variables ws variables [] of
                        (out, Inl e) \<Rightarrow> (out, Inl e)
                      | (out, Inr tempDict) \<Rightarrow>
                          (out, Inr (m3\<lparr>objective := (objective m3)\<lparr>obj_coefficients := tempDict\<rparr>\<rparr>))))))"

text \<open>The coefficient the loop gives a variable: the first match's weight, else 1.\<close>

definition coefficient_of :: "real pydict \<Rightarrow> variable \<Rightarrow> real" where
  "coefficient_of ws v =
     (case variable_text v of
        Inl e \<Rightarrow> 1
      | Inr w \<Rightarrow> (case find_weighting ws w of Some x \<Rightarrow> x | None \<Rightarrow> 1))"

section \<open>\<^verbatim>\<open>flux_variability_analysis\<close>\<close>

text \<open>
  What the caller can observe besides the returned frame: warnings, printed lines, and
  each solve of the model.
\<close>

datatype event = Warned string | Printed string | Optimized

text \<open>The result frame: one row per listed reaction, (identifier, minimum, maximum).\<close>

type_synonym fva_frame = "(string \<times> real \<times> real) list"

text \<open>
  \<^verbatim>\<open>fva_result.at[rxn_id, what] = value\<close>: the label is always one of the index, since
  a step hands back the identifier it was given.
\<close>

definition at_set :: "string \<Rightarrow> string \<Rightarrow> real \<Rightarrow> fva_frame \<Rightarrow> fva_frame" where
  "at_set what rxn_id v frame =
     map (\<lambda>(k, mn, mx).
            if k = rxn_id then
              (if what = ''minimum'' then (k, v, mx)
               else if what = ''maximum'' then (k, mn, v) else (k, mn, mx))
            else (k, mn, mx)) frame"

fun get_by_any :: "reaction list \<Rightarrow> string list \<Rightarrow> error + reaction list" where
  "get_by_any rs [] = Inr []"
| "get_by_any rs (i # is) =
     (case get_by_id rs i of
        Inl e \<Rightarrow> Inl e
      | Inr r \<Rightarrow> (case get_by_any rs is of Inl e \<Rightarrow> Inl e | Inr rest \<Rightarrow> Inr (r # rest)))"

definition low_pfba_factor :: string where
  "low_pfba_factor = ''The 'pfba_factor' should be larger or equal to 1.''"

text \<open>One pass of \<^verbatim>\<open>for what in ("minimum", "maximum")\<close>.\<close>

definition fva_pass ::
  "env \<Rightarrow> model \<Rightarrow> bool \<Rightarrow> string list \<Rightarrow> int \<Rightarrow> string \<Rightarrow> fva_frame \<Rightarrow> event list \<times> fva_frame" where
  "fva_pass E m loopless reaction_ids processes what fva_result =
     (let step = (\<lambda>rxn_id. (rxn_id, fva_step E m loopless (take 3 what) rxn_id)) in
      if processes > 1 then
        (let chunk_size = int (length reaction_ids) div processes;
             results = map step (arrival E chunk_size reaction_ids)
         in (map (\<lambda>(rxn_id, value). Printed rxn_id) results,
             foldl (\<lambda>frame (rxn_id, value). at_set what rxn_id value frame) fva_result results))
      else
        ([], foldl (\<lambda>frame (rxn_id, value). at_set what rxn_id value frame) fva_result
                   (map step reaction_ids)))"

definition flux_variability_analysis ::
  "env \<Rightarrow> model \<Rightarrow> string list option \<Rightarrow> bool \<Rightarrow> real \<Rightarrow> real option \<Rightarrow> int option
     \<Rightarrow> event list \<times> (error + fva_frame)" where
  "flux_variability_analysis E m reaction_list loopless fraction_of_optimum pfba_factor processes =
     (case (case reaction_list of
              None \<Rightarrow> Inr (reactions m)
            | Some l \<Rightarrow> get_by_any (reactions m) l) of
        Inl e \<Rightarrow> ([], Inl e)
      | Inr listed \<Rightarrow>
     (let reaction_ids = map reaction_id listed in
      case (case processes of
              Some p \<Rightarrow> Inr p
            | None \<Rightarrow> if name_defined ''configuration'' then Inr (configuration_processes E)
                       else Inl (NameError ''configuration'')) of
        Inl e \<Rightarrow> ([], Inl e)
      | Inr processes0 \<Rightarrow>
     (let num_reactions = int (length reaction_ids);
          processes1 = min processes0 num_reactions;
          fva_result = map (\<lambda>i. (i, 0, 0)) reaction_ids
      in case slim_optimize E m of
        None \<Rightarrow> ([Optimized], Inl OptimizationError)
      | Some value \<Rightarrow>
     (let fva_old_objective =
            (if obj_direction (objective m) = Max
             then (''fva_old_objective'', Some (fraction_of_optimum * value), None)
             else (''fva_old_objective'', None, Some (fraction_of_optimum * value)));
          m1 = m\<lparr>cons_vars := cons_vars m
                    @ [fva_old_objective, (''fva_old_objective_constraint'', Some 0, Some 0)]\<rparr>
      in case (case pfba_factor of
                 None \<Rightarrow> ([], Inr m1)
               | Some pf \<Rightarrow>
                   (let warned = (if pf < 1 then [Warned low_pfba_factor] else [])
                    in if \<not> name_defined ''add_pfba'' then (warned, Inl (NameError ''add_pfba''))
                       else
                         (case add_pfba E m1 0 of
                            Inl e \<Rightarrow> (warned, Inl e)
                          | Inr mp \<Rightarrow>
                              (case slim_optimize E mp of
                                 None \<Rightarrow> (warned @ [Optimized], Inl OptimizationError)
                               | Some ub \<Rightarrow>
                                   (warned @ [Optimized],
                                    Inr (m1\<lparr>cons_vars := cons_vars m1
                                              @ [(''flux_sum'', None, Some (pf * ub)),
                                                 (''flux_sum_constraint'', Some 0, Some 0)]\<rparr>)))))) of
        (evs, Inl e) \<Rightarrow> (Optimized # evs, Inl e)
      | (evs, Inr m2) \<Rightarrow>
     (let m3 = m2\<lparr>objective := \<lparr>obj_name = [], obj_direction = Max, obj_coefficients = []\<rparr>\<rparr>;
          (evs_min, frame_min) = fva_pass E m3 loopless reaction_ids processes1 ''minimum'' fva_result;
          (evs_max, frame_max) = fva_pass E m3 loopless reaction_ids processes1 ''maximum'' frame_min
      in (Optimized # evs @ evs_min @ evs_max, Inr frame_max))))))"

text \<open>
  The frame after the column \<open>what\<close> of every row labelled in \<open>S\<close> has been written
  with the value \<open>f\<close> gives for its label.
\<close>

definition filled :: "string \<Rightarrow> (string \<Rightarrow> real) \<Rightarrow> string set \<Rightarrow> fva_frame \<Rightarrow> fva_frame" where
  "filled what f S frame =
     map (\<lambda>(k, mn, mx).
            if k \<in> S then
              (if what = ''minimum'' then (k, f k, mx)
               else if what = ''maximum'' then (k, mn, f k) else (k, mn, mx))
            else (k, mn, mx)) frame"

section \<open>The fold in \<^verbatim>\<open>pFBA_FVA_run\<close>\<close>

text \<open>
  One column of the variability frame is a series: index label to value, labels unique.
  Both branches of \<^verbatim>\<open>if mode == "maximum"\<close> run the loop below (the local is named
  \<^verbatim>\<open>maxi\<close> in one and \<^verbatim>\<open>mini\<close> in the other). The first argument is the whole
  series, the second the keys still to visit.
\<close>

fun fold_loop ::
  "real pydict \<Rightarrow> string list \<Rightarrow> string set \<Rightarrow> real pydict \<Rightarrow> error + real pydict" where
  "fold_loop series [] FVArxnSet tempdict = Inr tempdict"
| "fold_loop series (key # keys) FVArxnSet tempdict =
     (let rxn = (if sublist ''_reverse'' key then py_replace ''_reverse'' [] key else key) in
      if rxn \<in> FVArxnSet then fold_loop series keys FVArxnSet tempdict
      else if rxn @ ''_reverse'' \<notin> set (map fst series) then
        (case getitem series rxn of
           Inl e \<Rightarrow> Inl e
         | Inr a \<Rightarrow> fold_loop series keys (insert rxn FVArxnSet) (AList.update rxn a tempdict))
      else
        (case getitem series rxn of
           Inl e \<Rightarrow> Inl e
         | Inr a \<Rightarrow>
             (case getitem series (rxn @ ''_reverse'') of
                Inl e \<Rightarrow> Inl e
              | Inr b \<Rightarrow>
                  fold_loop series keys (insert rxn FVArxnSet) (AList.update rxn (a + b) tempdict))))"

definition fold_column :: "real pydict \<Rightarrow> error + real pydict" where
  "fold_column series = fold_loop series (map fst series) {} []"

text \<open>The outer \<^verbatim>\<open>for mode in fva.keys()\<close>, filling \<^verbatim>\<open>fva2\<close>.\<close>

fun fold_modes ::
  "(string \<times> real pydict) list \<Rightarrow> (real pydict) pydict \<Rightarrow> error + (real pydict) pydict" where
  "fold_modes [] fva2 = Inr fva2"
| "fold_modes ((mode, series) # rest) fva2 =
     (case (if mode = ''maximum'' then fold_column series else fold_column series) of
        Inl e \<Rightarrow> Inl e
      | Inr tempdict \<Rightarrow> fold_modes rest (AList.update mode tempdict fva2))"

definition fold_fva :: "(real pydict) pydict \<Rightarrow> error + (real pydict) pydict" where
  "fold_fva fva = fold_modes fva []"

section \<open>The join in \<^verbatim>\<open>get_pfba_fva_solution\<close>\<close>





section \<open>Concrete inputs\<close>

definition plain_objective :: objective where
  "plain_objective = \<lparr>obj_name = ''Phloem_tx_overall'', obj_direction = Max, obj_coefficients = []\<rparr>"

definition R1 :: reaction where
  "R1 = \<lparr>reaction_id = ''R1'', lower_bound = 0, upper_bound = 10, metabolites = []\<rparr>"

definition R2 :: reaction where
  "R2 = \<lparr>reaction_id = ''R2'', lower_bound = -5, upper_bound = 5, metabolites = []\<rparr>"

definition R :: reaction where
  "R = \<lparr>reaction_id = ''R'', lower_bound = -5, upper_bound = 10, metabolites = []\<rparr>"

definition two_reactions :: model where
  "two_reactions = \<lparr>reactions = [R1, R2], objective = plain_objective, cons_vars = []\<rparr>"

definition one_reaction :: model where
  "one_reaction = \<lparr>reactions = [R], objective = plain_objective, cons_vars = []\<rparr>"

definition linker :: "nat \<Rightarrow> real \<Rightarrow> reaction" where
  "linker i c = \<lparr>reaction_id = ''SUCROSE_v_gc_Linker_'' @ str_nat i, lower_bound = 0,
      upper_bound = 1000, metabolites = [(''SUCROSE_v_gc_'' @ str_nat i, c)]\<rparr>"

definition plain :: "string \<Rightarrow> reaction" where
  "plain i = \<lparr>reaction_id = i, lower_bound = 0, upper_bound = 1000, metabolites = []\<rparr>"

text \<open>
  Collaborators for a model of \<open>n\<close> phases: variables print as the library prints them
  (\<^verbatim>\<open>0 <= name <= 1000\<close>), every solve succeeds with value 1, freezing the objective
  replaces the constraint of that name, and the pool hands results back in reverse order.
\<close>

definition phases_env :: "nat \<Rightarrow> env" where
  "phases_env n =
     \<lparr>check_number_of_models = (\<lambda>m. n),
      forward_variable = (\<lambda>r. Variable (reaction_id r) (''0 <= '' @ reaction_id r @ '' <= 1000'')),
      reverse_variable = (\<lambda>r. Variable (reaction_id r @ ''_reverse_0a1b2'')
                                 (''0 <= '' @ reaction_id r @ ''_reverse_0a1b2 <= 1000'')),
      fix_objective_as_constraint =
        (\<lambda>m f. Inr (m\<lparr>cons_vars :=
                         filter (\<lambda>c. fst c \<noteq> ''fixed_objective_'' @ obj_name (objective m)) (cons_vars m)
                         @ [(''fixed_objective_'' @ obj_name (objective m), Some f, None)]\<rparr>)),
      slim_optimize = (\<lambda>m. Some 1),
      fva_step = (\<lambda>m l s i. if s = ''min'' then 0 else 1),
      arrival = (\<lambda>c xs. rev xs),
      configuration_processes = 1,
      add_pfba = (\<lambda>m f. Inr m)\<rparr>"

text \<open>The specification's two-phase scenario: linker coefficients -0.5 and -0.25.\<close>

definition two_phases :: model where
  "two_phases =
     \<lparr>reactions = [linker 1 (- 1/2), linker 2 (- 1/4), plain ''EX_X_e_1'', plain ''PGK_c_2'',
                   plain ''Photon_tx_sum_2'', plain ''NoPhase''],
      objective = plain_objective, cons_vars = []\<rparr>"

definition two_phases_weightings :: "real pydict" where
  "two_phases_weightings =
     [(''SUCROSE_v_gc_Linker_1'', 2), (''EX_X_e_1'', 0), (''Photon_tx_sum_2'', 0),
      (''SUCROSE_v_gc_Linker_2'', 4), (''PGK_c_2'', 4)]"

text \<open>Eleven phases: phase 1 has length 2, every other phase length 4.\<close>

definition eleven_phases :: model where
  "eleven_phases =
     \<lparr>reactions = linker 1 (- 1/2) # map (\<lambda>i. linker i (- 1/4)) [2 ..< 12]
                   @ [plain ''X_11'', plain ''X_10''],
      objective = plain_objective, cons_vars = []\<rparr>"

definition eleven_phases_weightings :: "real pydict" where
  "eleven_phases_weightings =
     [(''SUCROSE_v_gc_Linker_1'', 2), (''SUCROSE_v_gc_Linker_11'', 2), (''X_11'', 2),
      (''SUCROSE_v_gc_Linker_2'', 4), (''SUCROSE_v_gc_Linker_3'', 4),
      (''SUCROSE_v_gc_Linker_4'', 4), (''SUCROSE_v_gc_Linker_5'', 4),
      (''SUCROSE_v_gc_Linker_6'', 4), (''SUCROSE_v_gc_Linker_7'', 4),
      (''SUCROSE_v_gc_Linker_8'', 4), (''SUCROSE_v_gc_Linker_9'', 4)]"

text \<open>
  A variability frame over the split model, and the same frame folded: the folded
  maximum of \<open>R2\<close> is the sum of the entries of \<open>R2\<close> and \<open>R2_reverse\<close>.
\<close>

definition split_table :: "(real pydict) pydict" where
  "split_table =
     [(''minimum'', [(''R2_reverse'', - 5), (''R2'', 0), (''R1'', 0)]),
      (''maximum'', [(''R2_reverse'', 0), (''R2'', 5), (''R1'', 10)])]"

definition folded_table :: "(real pydict) pydict" where
  "folded_table =
     [(''minimum'', [(''R2'', - 5), (''R1'', 0)]),
      (''maximum'', [(''R2'', 5), (''R1'', 10)])]"

text \<open>
  The specification's scenario for the weighted objective: weights 1 and 2 for
  \<open>R1\<close> and \<open>R2\<close>; the model after the objective was frozen, and after the
  weighted objective was built.
\<close>

definition both_weighted :: "real pydict" where
  "both_weighted = [(''R1'', 1), (''R2'', 2)]"

definition fixed_model :: model where
  "fixed_model = two_reactions\<lparr>cons_vars := [(''fixed_objective_Phloem_tx_overall'', Some 1, None)]\<rparr>"

definition pfba_model :: model where
  "pfba_model =
     fixed_model\<lparr>objective :=
       \<lparr>obj_name = ''_pfba_objective'', obj_direction = Min,
        obj_coefficients =
          [(Variable ''R1'' ''0 <= R1 <= 1000'', 1),
           (Variable ''R1_reverse_0a1b2'' ''0 <= R1_reverse_0a1b2 <= 1000'', 1),
           (Variable ''R2'' ''0 <= R2 <= 1000'', 2),
           (Variable ''R2_reverse_0a1b2'' ''0 <= R2_reverse_0a1b2 <= 1000'', 2)]\<rparr>\<rparr>"





section \<open>Splitting reversible reactions\<close>

lemma get_by_id_append:
  "get_by_id (xs @ ys) i = (case get_by_id xs i of Inr r \<Rightarrow> Inr r | Inl _ \<Rightarrow> get_by_id ys i)"
  by (induction xs) (auto simp: get_by_id_def split: option.splits)

lemma get_by_id_notin:
  "i \<notin> reaction_id ` set xs \<Longrightarrow> get_by_id xs i = Inl (KeyError i)"
  by (induction xs) (auto simp: get_by_id_def split: option.splits)

lemma store_reaction_append_notin:
  "reaction_id r' \<notin> reaction_id ` set xs \<Longrightarrow>
   store_reaction r' (xs @ ys) = xs @ store_reaction r' ys"
  by (induction xs) auto

lemma forward_half_id [simp]: "reaction_id (forward_half r) = reaction_id r"
  by (simp add: forward_half_def)

text \<open>
  The loop invariant: \<open>pre\<close> are the reactions already visited, \<open>added\<close> the reverse
  halves appended so far.
\<close>

lemma rev2irrev_loop_split:
  assumes "distinct (map reaction_id (pre @ rest))"
    and "\<forall>r\<in>set rest. lower_bound r < 0 \<longrightarrow> 0 \<le> upper_bound r"
    and "\<forall>r\<in>set rest. lower_bound r < 0 \<longrightarrow>
           reaction_id r @ ''_reverse'' \<notin> reaction_id ` set (pre @ rest)"
    and "\<forall>a\<in>set added. \<exists>r\<in>set pre. reaction_id a = reaction_id r @ ''_reverse''"
  shows "rev2irrev_loop rest (map forward_half pre @ rest @ added) =
         Inr (map forward_half (pre @ rest) @ added
              @ map reverse_half (filter (\<lambda>r. lower_bound r < 0) rest))"
  using assms
proof (induction rest arbitrary: pre added)
  case Nil
  then show ?case by simp
next
  case (Cons RXN rest)
  let ?i = "reaction_id RXN"
  have notin: "?i \<notin> reaction_id ` set (map forward_half pre)"
    using Cons.prems(1) by (auto simp: image_iff)
  have g: "get_by_id (map forward_half pre @ RXN # rest @ added) ?i = Inr RXN"
    using notin by (simp add: get_by_id_append get_by_id_notin) (simp add: get_by_id_def)
  have d: "distinct (map reaction_id ((pre @ [RXN]) @ rest))"
    using Cons.prems(1) by simp
  show ?case
  proof (cases "lower_bound RXN < 0")
    case False
    have "rev2irrev_loop rest (map forward_half (pre @ [RXN]) @ rest @ added) =
         Inr (map forward_half ((pre @ [RXN]) @ rest) @ added
              @ map reverse_half (filter (\<lambda>r. lower_bound r < 0) rest))"
      apply (rule Cons.IH[OF d])
      using Cons.prems by auto
    moreover have "forward_half RXN = RXN"
      using False by (simp add: forward_half_def)
    moreover have "rev2irrev_loop (RXN # rest) (map forward_half pre @ RXN # rest @ added) =
       rev2irrev_loop rest (map forward_half pre @ RXN # rest @ added)"
      using g False by simp
    ultimately show ?thesis
      using False by (simp del: rev2irrev_loop.simps)
  next
    case True
    have ub: "0 \<le> upper_bound RXN"
      using Cons.prems(2) True by simp
    let ?rev = "reverse_half RXN"
    have st: "store_reaction (RXN\<lparr>lower_bound := 0\<rparr>) (map forward_half pre @ RXN # rest @ added)
        = map forward_half pre @ forward_half RXN # rest @ added"
      using notin True by (simp add: store_reaction_append_notin forward_half_def)
    have fresh: "reaction_id ?rev
        \<notin> reaction_id ` set (map forward_half pre @ forward_half RXN # rest @ added)"
    proof -
      have a: "?i @ ''_reverse'' \<notin> reaction_id ` set (pre @ RXN # rest)"
        using Cons.prems(3) True by simp
      have b: "?i @ ''_reverse'' \<notin> reaction_id ` set added"
      proof
        assume "?i @ ''_reverse'' \<in> reaction_id ` set added"
        then obtain a where "a \<in> set added" "reaction_id a = ?i @ ''_reverse''"
          by auto
        then obtain r where "r \<in> set pre" "reaction_id r = ?i"
          using Cons.prems(4) by fastforce
        then show False
          using notin by (auto simp: image_iff)
      qed
      show ?thesis
        using a b by (auto simp: reverse_half_def image_iff)
    qed
    have ih: "rev2irrev_loop rest (map forward_half (pre @ [RXN]) @ rest @ (added @ [?rev])) =
         Inr (map forward_half ((pre @ [RXN]) @ rest) @ (added @ [?rev])
              @ map reverse_half (filter (\<lambda>r. lower_bound r < 0) rest))"
      apply (rule Cons.IH[OF d])
      using Cons.prems by (auto simp: reverse_half_def)
    have step: "rev2irrev_loop (RXN # rest) (map forward_half pre @ RXN # rest @ added) =
       rev2irrev_loop rest
         (add_reaction (map forward_half pre @ forward_half RXN # rest @ added) ?rev)"
      using g True ub st
      by (simp add: set_lower_bound_def set_upper_bound_def Let_def reverse_half_def)
    have "add_reaction (map forward_half pre @ forward_half RXN # rest @ added) ?rev
          = map forward_half (pre @ [RXN]) @ rest @ (added @ [?rev])"
      using fresh by (simp add: add_reaction_def)
    then show ?thesis
      using step ih True by (simp del: rev2irrev_loop.simps)
  qed
qed

text \<open>
  C1, as the code has it. Take a model whose identifiers are unique, in which every
  reaction with a negative lower bound has a non-negative upper bound (so that the
  library accepts the write of lower bound 0), and in which no identifier is another
  reversible reaction's identifier followed by \<open>_reverse\<close>. Then \<open>rev2irrev\<close>
  returns the model whose reactions are the original ones in their order, each reaction
  with lower bound below 0 now with lower bound 0 and every other one untouched, followed
  by one generated reaction per reaction with lower bound below 0: its identifier is the
  original one suffixed with \<open>_reverse\<close>, its upper bound is 0, and its lower bound is
  the original lower bound, unchanged (not negated).
\<close>

theorem rev2irrev_splits:
  assumes "distinct (map reaction_id (reactions m))"
    and "\<forall>r\<in>set (reactions m). lower_bound r < 0 \<longrightarrow> 0 \<le> upper_bound r"
    and "\<forall>r\<in>set (reactions m). lower_bound r < 0 \<longrightarrow>
           reaction_id r @ ''_reverse'' \<notin> reaction_id ` set (reactions m)"
  shows "rev2irrev m =
           Inr (m\<lparr>reactions :=
                    map (\<lambda>r. if lower_bound r < 0 then r\<lparr>lower_bound := 0\<rparr> else r) (reactions m)
                    @ map (\<lambda>r. r\<lparr>reaction_id := reaction_id r @ ''_reverse'', upper_bound := 0\<rparr>)
                        (filter (\<lambda>r. lower_bound r < 0) (reactions m))\<rparr>)"
proof -
  have "rev2irrev_loop (reactions m) (map forward_half [] @ reactions m @ []) =
          Inr (map forward_half ([] @ reactions m) @ []
               @ map reverse_half (filter (\<lambda>r. lower_bound r < 0) (reactions m)))"
    by (rule rev2irrev_loop_split) (use assms in auto)
  moreover have "forward_half = (\<lambda>r. if lower_bound r < 0 then r\<lparr>lower_bound := 0\<rparr> else r)"
    by (rule ext) (simp add: forward_half_def)
  moreover have "reverse_half = (\<lambda>r. r\<lparr>reaction_id := reaction_id r @ ''_reverse'', upper_bound := 0\<rparr>)"
    by (rule ext) (simp add: reverse_half_def)
  ultimately show ?thesis
    by (simp add: rev2irrev_def)
qed

theorem rev2irrev_splits_witness:
  "rev2irrev two_reactions =
     Inr (two_reactions\<lparr>reactions :=
            [R1, R2\<lparr>lower_bound := 0\<rparr>, R2\<lparr>reaction_id := ''R2_reverse'', upper_bound := 0\<rparr>]\<rparr>)"
  using rev2irrev_splits [of two_reactions]
  by (simp add: two_reactions_def R1_def R2_def)

text \<open>
  The claim as written asks for the generated reaction's lower bound to be the negated
  original one. For the single reaction \<open>R\<close> with bounds (-5, 10) the generated
  \<open>R_reverse\<close> has bounds (-5, 0): its lower bound is -5, and the negated original
  lower bound is 5.
\<close>

theorem rev2irrev_negated_bound_counterexample:
  "rev2irrev one_reaction =
     Inr (one_reaction\<lparr>reactions :=
            [R\<lparr>lower_bound := 0\<rparr>, R\<lparr>reaction_id := ''R_reverse'', upper_bound := 0\<rparr>]\<rparr>)
   \<and> lower_bound (R\<lparr>reaction_id := ''R_reverse'', upper_bound := 0\<rparr>) = - 5
   \<and> lower_bound (R\<lparr>reaction_id := ''R_reverse'', upper_bound := 0\<rparr>) \<noteq> - lower_bound R"
  by (simp add: rev2irrev_def one_reaction_def R_def get_by_id_def set_lower_bound_def
      set_upper_bound_def add_reaction_def)

section \<open>Default weightings\<close>

lemma str_nat_nonempty: "str_nat n \<noteq> []"
  by (subst str_nat.simps) simp

lemma str_nat_two_digits: "10 \<le> n \<Longrightarrow> 2 \<le> length (str_nat n)"
proof -
  assume "10 \<le> n"
  then have "str_nat n = str_nat (n div 10) @ [digit_char (n mod 10)]"
    by (subst str_nat.simps) simp
  moreover have "1 \<le> length (str_nat (n div 10))"
    using str_nat_nonempty [of "n div 10"] by (cases "str_nat (n div 10)") auto
  ultimately show ?thesis by simp
qed

lemma str_nat_single: "str_nat n = [c] \<Longrightarrow> n < 10 \<and> c = digit_char n"
proof -
  assume a: "str_nat n = [c]"
  have "n < 10"
  proof (rule ccontr)
    assume "\<not> n < 10"
    then have "2 \<le> length (str_nat n)" by (simp add: str_nat_two_digits)
    then show False using a by simp
  qed
  moreover from this have "str_nat n = [digit_char n]" by (subst str_nat.simps) simp
  ultimately show ?thesis using a by simp
qed

lemma digit_char_inj: "i < 10 \<Longrightarrow> j < 10 \<Longrightarrow> digit_char i = digit_char j \<Longrightarrow> i = j"
proof -
  assume i: "i < 10" and j: "j < 10" and e: "digit_char i = digit_char j"
  have "(of_char (digit_char i) :: nat) = of_char (digit_char j)" using e by simp
  then have "(48 + i) mod 256 = (48 + j) mod 256"
    by (simp add: digit_char_def)
  then show ?thesis using i j by simp
qed

lemma str_nat_match_unique: "str_nat i = [c] \<Longrightarrow> str_nat j = [c] \<Longrightarrow> i = j"
  using str_nat_single digit_char_inj by metis

lemma weight_reactions_lookup:
  "weight_reactions i len rs w = Inr w' \<Longrightarrow>
   map_of w' k =
     (if k \<in> reaction_id ` set rs then
        (if accounting k then Some 0
         else if [last k] = str_nat i then Some len else map_of w k)
      else map_of w k)"
proof (induction rs arbitrary: w)
  case Nil
  then show ?case by simp
next
  case (Cons r rs)
  let ?i = "reaction_id r"
  show ?case
  proof (cases "accounting ?i")
    case True
    then have "weight_reactions i len rs (AList.update ?i 0 w) = Inr w'"
      using Cons.prems by simp
    from Cons.IH [OF this] show ?thesis
      using True by (cases "k = ?i") (simp_all add: update_conv')
  next
    case False
    then have ne: "?i \<noteq> []"
      using Cons.prems by (auto split: if_splits)
    show ?thesis
    proof (cases "[last ?i] = str_nat i")
      case True
      then have "weight_reactions i len rs (AList.update ?i len w) = Inr w'"
        using Cons.prems False ne by simp
      from Cons.IH [OF this] show ?thesis
        using True False by (cases "k = ?i") (simp_all add: update_conv')
    next
      case nomatch: False
      then have "weight_reactions i len rs w = Inr w'"
        using Cons.prems False ne by simp
      from Cons.IH [OF this] show ?thesis
        using nomatch False by (cases "k = ?i") simp_all
    qed
  qed
qed

lemma weight_phases_accounting:
  "weight_phases rs is w = Inr w' \<Longrightarrow> k \<in> reaction_id ` set rs \<Longrightarrow> accounting k \<Longrightarrow>
   map_of w' k = (if is = [] then map_of w k else Some 0)"
proof (induction "is" arbitrary: w)
  case Nil
  then show ?case by simp
next
  case (Cons i "is")
  from Cons.prems(1) obtain len w1 where
    l: "length_of_phase rs i = Inr len" and
    w1: "weight_reactions i len rs w = Inr w1" and
    rest: "weight_phases rs is w1 = Inr w'"
    by (auto split: sum.splits)
  have "map_of w1 k = Some 0"
    using weight_reactions_lookup [OF w1, of k] Cons.prems(2,3) by simp
  then show ?case
    using Cons.IH [OF rest Cons.prems(2,3)] by simp
qed

lemma weight_phases_plain:
  "weight_phases rs is w = Inr w' \<Longrightarrow> k \<in> reaction_id ` set rs \<Longrightarrow> \<not> accounting k \<Longrightarrow>
   map_of w' k = Some x \<longleftrightarrow>
     (\<exists>i\<in>set is. [last k] = str_nat i \<and> length_of_phase rs i = Inr x)
     \<or> ((\<forall>i\<in>set is. [last k] \<noteq> str_nat i) \<and> map_of w k = Some x)"
proof (induction "is" arbitrary: w)
  case Nil
  then show ?case by simp
next
  case (Cons i "is")
  from Cons.prems(1) obtain len w1 where
    l: "length_of_phase rs i = Inr len" and
    w1: "weight_reactions i len rs w = Inr w1" and
    rest: "weight_phases rs is w1 = Inr w'"
    by (auto split: sum.splits)
  have m1: "map_of w1 k = (if [last k] = str_nat i then Some len else map_of w k)"
    using weight_reactions_lookup [OF w1, of k] Cons.prems(2,3) by simp
  note ih = Cons.IH [OF rest Cons.prems(2,3)]
  show ?case
  proof (cases "[last k] = str_nat i")
    case True
    have same: "\<And>j. [last k] = str_nat j \<Longrightarrow> j = i"
      using True str_nat_match_unique by metis
    have A: "(\<exists>j\<in>set is. [last k] = str_nat j \<and> length_of_phase rs j = Inr x) \<Longrightarrow> len = x"
      using same l by auto
    have L: "map_of w' k = Some x \<longleftrightarrow> len = x"
    proof
      assume "map_of w' k = Some x"
      then have "(\<exists>j\<in>set is. [last k] = str_nat j \<and> length_of_phase rs j = Inr x)
         \<or> ((\<forall>j\<in>set is. [last k] \<noteq> str_nat j) \<and> map_of w1 k = Some x)"
        using ih by blast
      then show "len = x" using A m1 True by auto
    next
      assume e: "len = x"
      have "(\<exists>j\<in>set is. [last k] = str_nat j \<and> length_of_phase rs j = Inr x)
         \<or> ((\<forall>j\<in>set is. [last k] \<noteq> str_nat j) \<and> map_of w1 k = Some x)"
      proof (cases "\<exists>j\<in>set is. [last k] = str_nat j")
        case True
        then obtain j where j: "j \<in> set is" "[last k] = str_nat j" by blast
        then have "j = i" using same by blast
        then show ?thesis using j l e by blast
      next
        case False
        then show ?thesis using m1 True e by simp
      qed
      then show "map_of w' k = Some x" using ih by blast
    qed
    have R: "((\<exists>j\<in>set (i # is). [last k] = str_nat j \<and> length_of_phase rs j = Inr x)
         \<or> ((\<forall>j\<in>set (i # is). [last k] \<noteq> str_nat j) \<and> map_of w k = Some x)) \<longleftrightarrow> len = x"
    proof
      assume "(\<exists>j\<in>set (i # is). [last k] = str_nat j \<and> length_of_phase rs j = Inr x)
         \<or> ((\<forall>j\<in>set (i # is). [last k] \<noteq> str_nat j) \<and> map_of w k = Some x)"
      then obtain j where "[last k] = str_nat j" "length_of_phase rs j = Inr x"
        using True by auto
      then show "len = x" using same l by auto
    next
      assume "len = x"
      then show "(\<exists>j\<in>set (i # is). [last k] = str_nat j \<and> length_of_phase rs j = Inr x)
         \<or> ((\<forall>j\<in>set (i # is). [last k] \<noteq> str_nat j) \<and> map_of w k = Some x)"
        using True l by simp
    qed
    show ?thesis
      using L R by blast
  next
    case False
    then show ?thesis using ih m1 by auto
  qed
qed

text \<open>
  C4. When \<open>get_weightings\<close> returns for a model of at least one phase, every reaction
  whose identifier contains \<open>constraint\<close>, \<open>overall\<close> or \<open>sum\<close>, or whose first two
  characters are \<open>EX\<close>, is mapped to weight 0, whatever its identifier ends with: the
  test for the accounting pattern comes before the test of the phase suffix.
\<close>

theorem get_weightings_accounting_zero:
  assumes "get_weightings E m = Inr weightings"
    and "1 \<le> check_number_of_models E m"
    and "r \<in> set (reactions m)"
    and "sublist ''constraint'' (reaction_id r) \<or> sublist ''overall'' (reaction_id r)
         \<or> sublist ''sum'' (reaction_id r) \<or> take 2 (reaction_id r) = ''EX''"
  shows "map_of weightings (reaction_id r) = Some 0"
proof -
  let ?n = "check_number_of_models E m"
  have run: "weight_phases (reactions m) [1 ..< ?n + 1] [] = Inr weightings"
    using assms(1) by (simp only: get_weightings_def Let_def)
  have "[1 ..< ?n + 1] \<noteq> []"
    using assms(2) by simp
  moreover have "accounting (reaction_id r)"
    using assms(4) by (simp add: accounting_def)
  moreover have "reaction_id r \<in> reaction_id ` set (reactions m)"
    using assms(3) by simp
  ultimately show ?thesis
    using weight_phases_accounting [OF run] by simp
qed

theorem get_weightings_accounting_zero_witness:
  "get_weightings (phases_env 2) two_phases = Inr two_phases_weightings
   \<and> map_of two_phases_weightings ''EX_X_e_1'' = Some 0"
proof -
  have run: "get_weightings (phases_env 2) two_phases = Inr two_phases_weightings"
    by code_simp
  have n: "1 \<le> check_number_of_models (phases_env 2) two_phases"
    by (simp add: phases_env_def)
  have r: "plain ''EX_X_e_1'' \<in> set (reactions two_phases)"
    by (simp add: two_phases_def)
  have a: "sublist ''constraint'' (reaction_id (plain ''EX_X_e_1''))
         \<or> sublist ''overall'' (reaction_id (plain ''EX_X_e_1''))
         \<or> sublist ''sum'' (reaction_id (plain ''EX_X_e_1''))
         \<or> take 2 (reaction_id (plain ''EX_X_e_1'')) = ''EX''"
    by (simp add: plain_def)
  show ?thesis
    using get_weightings_accounting_zero [OF run n r a] run by (simp add: plain_def)
qed

text \<open>
  C10, as the code has it. Take a reaction of the model that matches no accounting
  pattern, and let \<open>get_weightings\<close> return. The one-character string made of the
  reaction's last character is never the decimal string of a phase index 10 or more. The
  reaction is mapped to \<open>x\<close> exactly when its last character is the decimal string of
  a phase index \<open>i\<close> between 1 and the phase count, hence below 10, and \<open>x\<close> is the
  length of that phase; otherwise it is left unweighted. A reaction of a phase 10 or more
  is thus unweighted only when its last character is not the digit of an existing phase
  (as for identifiers ending in \<open>0\<close>); one ending in \<open>11\<close> receives the length of phase 1.
\<close>

theorem get_weightings_last_character:
  assumes "get_weightings E m = Inr weightings"
    and "r \<in> set (reactions m)"
    and "\<not> accounting (reaction_id r)"
  shows "(\<forall>i. 10 \<le> i \<longrightarrow> [last (reaction_id r)] \<noteq> str_nat i)
       \<and> (map_of weightings (reaction_id r) = Some x \<longleftrightarrow>
            (\<exists>i. 1 \<le> i \<and> i \<le> check_number_of_models E m \<and> i < 10
                 \<and> [last (reaction_id r)] = str_nat i
                 \<and> length_of_phase (reactions m) i = Inr x))"
proof -
  let ?n = "check_number_of_models E m"
  let ?k = "reaction_id r"
  have two: "\<And>i. 10 \<le> i \<Longrightarrow> [last ?k] \<noteq> str_nat i"
  proof
    fix i :: nat
    assume "10 \<le> i" and "[last ?k] = str_nat i"
    then have "2 \<le> length (str_nat i)" and "length (str_nat i) = length [last ?k]"
      using str_nat_two_digits [of i] by simp_all
    then show False
      by simp
  qed
  have run: "weight_phases (reactions m) [1 ..< ?n + 1] [] = Inr weightings"
    using assms(1) by (simp only: get_weightings_def Let_def)
  have k: "?k \<in> reaction_id ` set (reactions m)"
    using assms(2) by simp
  have "map_of weightings ?k = Some x \<longleftrightarrow>
          (\<exists>i\<in>set [1 ..< ?n + 1]. [last ?k] = str_nat i \<and> length_of_phase (reactions m) i = Inr x)"
    using weight_phases_plain [OF run k assms(3), of x] by simp
  also have "\<dots> \<longleftrightarrow> (\<exists>i. 1 \<le> i \<and> i \<le> ?n \<and> i < 10 \<and> [last ?k] = str_nat i
                 \<and> length_of_phase (reactions m) i = Inr x)"
  proof
    assume "\<exists>i\<in>set [1 ..< ?n + 1]. [last ?k] = str_nat i \<and> length_of_phase (reactions m) i = Inr x"
    then obtain i where i: "i \<in> set [1 ..< ?n + 1]" "[last ?k] = str_nat i"
        "length_of_phase (reactions m) i = Inr x"
      by blast
    have "i < 10"
      using two [of i] i(2) by (cases "i < 10") auto
    moreover have "1 \<le> i" "i \<le> ?n"
      using i(1) by auto
    ultimately show "\<exists>i. 1 \<le> i \<and> i \<le> ?n \<and> i < 10 \<and> [last ?k] = str_nat i
                 \<and> length_of_phase (reactions m) i = Inr x"
      using i(2,3) by blast
  next
    assume "\<exists>i. 1 \<le> i \<and> i \<le> ?n \<and> i < 10 \<and> [last ?k] = str_nat i
                 \<and> length_of_phase (reactions m) i = Inr x"
    then obtain i where i: "1 \<le> i" "i \<le> ?n" "[last ?k] = str_nat i"
        "length_of_phase (reactions m) i = Inr x"
      by blast
    then have "i \<in> set [1 ..< ?n + 1]"
      by auto
    then show "\<exists>i\<in>set [1 ..< ?n + 1]. [last ?k] = str_nat i \<and> length_of_phase (reactions m) i = Inr x"
      using i(3,4) by blast
  qed
  finally show ?thesis
    using two by blast
qed

theorem get_weightings_last_character_witness:
  "get_weightings (phases_env 11) eleven_phases = Inr eleven_phases_weightings
   \<and> [last ''X_11''] \<noteq> str_nat 11
   \<and> (\<exists>i. 1 \<le> i \<and> i \<le> 11 \<and> i < 10 \<and> [last ''X_11''] = str_nat i
          \<and> length_of_phase (reactions eleven_phases) i = Inr 2)"
proof -
  have run: "get_weightings (phases_env 11) eleven_phases = Inr eleven_phases_weightings"
    by code_simp
  have r: "plain ''X_11'' \<in> set (reactions eleven_phases)"
    by (simp add: eleven_phases_def)
  have a: "\<not> accounting (reaction_id (plain ''X_11''))"
    by code_simp
  have w: "map_of eleven_phases_weightings (reaction_id (plain ''X_11'')) = Some 2"
    by (simp add: eleven_phases_weightings_def plain_def)
  have n: "check_number_of_models (phases_env 11) eleven_phases = 11"
    by (simp add: phases_env_def)
  show ?thesis
    using get_weightings_last_character [OF run r a, of 2] w run n
    by (simp add: plain_def)
qed

text \<open>
  The claim as written leaves every reaction of a phase 10 or more unweighted. In a model
  of eleven phases, \<open>X_11\<close> ends with the decimal string of 11 and matches no accounting
  pattern, yet it is weighted: it receives 2, the length of phase 1, while phase 11 has
  length 4.
\<close>

theorem get_weightings_phase_eleven_counterexample:
  "get_weightings (phases_env 11) eleven_phases = Inr eleven_phases_weightings
   \<and> suffix (str_nat 11) ''X_11''
   \<and> map_of eleven_phases_weightings ''X_11'' = Some 2
   \<and> length_of_phase (reactions eleven_phases) 1 = Inr 2
   \<and> length_of_phase (reactions eleven_phases) 11 = Inr 4"
  by code_simp

section \<open>Folding split pairs back\<close>

lemma update_fresh: "k \<notin> fst ` set al \<Longrightarrow> AList.update k v al = al @ [(k, v)]"
  by (induction al) auto

lemma update_entries: "p \<in> set (AList.update k v al) \<Longrightarrow> p = (k, v) \<or> p \<in> set al"
  by (induction al) (auto split: if_splits)

lemma getitem_member:
  "distinct (map fst d) \<Longrightarrow> (k, v) \<in> set d \<Longrightarrow> getitem d k = Inr v"
  by (simp add: getitem_def)

lemma fold_loop_unchanged:
  assumes "distinct (map fst (pre @ rest))"
    and "\<forall>k\<in>fst ` set (pre @ rest). \<not> sublist ''_reverse'' k"
  shows "fold_loop (pre @ rest) (map fst rest) (fst ` set pre) pre = Inr (pre @ rest)"
  using assms
proof (induction rest arbitrary: pre)
  case Nil
  then show ?case by simp
next
  case (Cons p rest)
  obtain k v where p: "p = (k, v)" by (cases p)
  let ?s = "pre @ p # rest"
  have plain: "\<not> sublist ''_reverse'' k"
    using Cons.prems(2) p by auto
  have unseen: "k \<notin> fst ` set pre"
    using Cons.prems(1) p by auto
  have "sublist ''_reverse'' (k @ ''_reverse'')"
    by simp
  then have nopair: "k @ ''_reverse'' \<notin> set (map fst ?s)"
    using Cons.prems(2) by (metis list.set_map)
  have get: "getitem ?s k = Inr v"
    using Cons.prems(1) p by (intro getitem_member) auto
  have ih: "fold_loop ((pre @ [p]) @ rest) (map fst rest) (fst ` set (pre @ [p])) (pre @ [p])
            = Inr ((pre @ [p]) @ rest)"
    using Cons.prems by (intro Cons.IH) auto
  have "fold_loop ?s (map fst (p # rest)) (fst ` set pre) pre
        = fold_loop ?s (map fst rest) (insert k (fst ` set pre)) (AList.update k v pre)"
    using plain unseen nopair get p by (simp add: Let_def)
  also have "\<dots> = fold_loop ((pre @ [p]) @ rest) (map fst rest) (fst ` set (pre @ [p])) (pre @ [p])"
    using unseen p by (simp add: update_fresh)
  finally show ?case
    using ih by simp
qed

lemma fold_column_unchanged:
  assumes "distinct (map fst series)"
    and "\<forall>k\<in>fst ` set series. \<not> sublist ''_reverse'' k"
  shows "fold_column series = Inr series"
  using fold_loop_unchanged [of "[]" series] assms by (simp add: fold_column_def)

lemma fold_loop_distinct:
  "fold_loop series keys seen tempdict = Inr out \<Longrightarrow> distinct (map fst tempdict) \<Longrightarrow>
   distinct (map fst out)"
proof (induction keys arbitrary: seen tempdict)
  case Nil
  then show ?case by simp
next
  case (Cons key keys)
  let ?rxn = "if sublist ''_reverse'' key then py_replace ''_reverse'' [] key else key"
  show ?case
  proof (cases "?rxn \<in> seen")
    case True
    then have "fold_loop series keys seen tempdict = Inr out"
      using Cons.prems(1) by (simp add: Let_def)
    then show ?thesis using Cons.IH Cons.prems(2) by blast
  next
    case False
    then obtain x where "fold_loop series keys (insert ?rxn seen) (AList.update ?rxn x tempdict) = Inr out"
      using Cons.prems(1) by (auto simp: Let_def split: if_splits sum.splits)
    moreover have "distinct (map fst (AList.update ?rxn x tempdict))"
      using Cons.prems(2) by (rule distinct_update)
    ultimately show ?thesis using Cons.IH by blast
  qed
qed

lemma fold_column_distinct: "fold_column series = Inr out \<Longrightarrow> distinct (map fst out)"
  using fold_loop_distinct [of series "map fst series" "{}" "[]" out] by (simp add: fold_column_def)

lemma fold_modes_unchanged:
  assumes "distinct (map fst (pre @ rest))"
    and "\<forall>(mode, series)\<in>set rest. distinct (map fst series)
           \<and> (\<forall>k\<in>fst ` set series. \<not> sublist ''_reverse'' k)"
  shows "fold_modes rest pre = Inr (pre @ rest)"
  using assms
proof (induction rest arbitrary: pre)
  case Nil
  then show ?case by simp
next
  case (Cons p rest)
  obtain mode series where p: "p = (mode, series)" by (cases p)
  have col: "fold_column series = Inr series"
    using Cons.prems(2) p by (intro fold_column_unchanged) auto
  have fresh: "mode \<notin> fst ` set pre"
    using Cons.prems(1) p by auto
  have "fold_modes rest (pre @ [p]) = Inr ((pre @ [p]) @ rest)"
    using Cons.prems by (intro Cons.IH) auto
  then show ?case
    using col fresh p by (simp add: update_fresh)
qed

lemma fold_modes_distinct:
  "fold_modes rest fva2 = Inr out \<Longrightarrow> distinct (map fst fva2) \<Longrightarrow>
   \<forall>(mode, series)\<in>set fva2. distinct (map fst series) \<Longrightarrow>
   distinct (map fst out) \<and> (\<forall>(mode, series)\<in>set out. distinct (map fst series))"
proof (induction rest arbitrary: fva2)
  case Nil
  then show ?case by simp
next
  case (Cons p rest)
  obtain mode series where p: "p = (mode, series)" by (cases p)
  from Cons.prems(1) p obtain tempdict where
    col: "fold_column series = Inr tempdict" and
    rest: "fold_modes rest (AList.update mode tempdict fva2) = Inr out"
    by (auto split: sum.splits if_splits)
  have d: "distinct (map fst (AList.update mode tempdict fva2))"
    using Cons.prems(2) by (rule distinct_update)
  have e: "\<forall>(mode, series)\<in>set (AList.update mode tempdict fva2). distinct (map fst series)"
    using update_entries [of _ mode tempdict fva2] Cons.prems(3) fold_column_distinct [OF col]
    by blast
  show ?case
    using Cons.IH [OF rest d e] .
qed

text \<open>
  C8. A variability frame whose column names are unique, whose index labels are unique
  and none of whose labels contains \<open>_reverse\<close> is returned by the fold as it is. And
  whenever the fold returns, no identifier appears twice in a column of its output.
\<close>

theorem fold_fva_idempotent:
  "(distinct (map fst fva)
      \<and> (\<forall>(mode, series)\<in>set fva. distinct (map fst series)
             \<and> (\<forall>k\<in>fst ` set series. \<not> sublist ''_reverse'' k))
      \<longrightarrow> fold_fva fva = Inr fva)
   \<and> (fold_fva fva' = Inr fva2
      \<longrightarrow> (\<forall>(mode, series)\<in>set fva2. distinct (map fst series)))"
proof (intro conjI impI)
  assume "distinct (map fst fva)
      \<and> (\<forall>(mode, series)\<in>set fva. distinct (map fst series)
             \<and> (\<forall>k\<in>fst ` set series. \<not> sublist ''_reverse'' k))"
  then show "fold_fva fva = Inr fva"
    using fold_modes_unchanged [of "[]" fva] by (simp add: fold_fva_def)
next
  assume "fold_fva fva' = Inr fva2"
  then show "\<forall>(mode, series)\<in>set fva2. distinct (map fst series)"
    using fold_modes_distinct [of fva' "[]" fva2] by (simp add: fold_fva_def)
qed

theorem fold_fva_idempotent_witness:
  "fold_fva folded_table = Inr folded_table
   \<and> fold_fva split_table = Inr folded_table
   \<and> distinct (map fst [(''R2'', - 5), (''R1'', 0 :: real)])
   \<and> distinct (map fst [(''R2'', 5), (''R1'', 10 :: real)])"
proof -
  have run: "fold_fva split_table = Inr folded_table"
    by code_simp
  have shape: "distinct (map fst folded_table)
      \<and> (\<forall>(mode, series)\<in>set folded_table. distinct (map fst series)
             \<and> (\<forall>k\<in>fst ` set series. \<not> sublist ''_reverse'' k))"
    by (simp add: folded_table_def sublist_code prefix_code)
  show ?thesis
    using fold_fva_idempotent [of folded_table split_table folded_table] run shape
    by (simp add: folded_table_def)
qed

section \<open>Variability analysis\<close>

lemma at_set_filled:
  "at_set what i (f i) (filled what f S frame) = filled what f (insert i S) frame"
  by (auto simp: at_set_def filled_def)

lemma filled_empty: "filled what f {} frame = frame"
  by (simp add: filled_def)

lemma foldl_at_set:
  "foldl (\<lambda>frame (rxn_id, value). at_set what rxn_id value frame) (filled what f S frame)
         (map (\<lambda>i. (i, f i)) xs)
   = filled what f (S \<union> set xs) frame"
proof (induction xs arbitrary: S)
  case Nil
  then show ?case by simp
next
  case (Cons x xs)
  show ?case
    using Cons.IH [of "insert x S"] by (simp add: at_set_filled)
qed

lemma fva_pass_frame:
  assumes "mset (arrival E (int (length ids) div p) ids) = mset ids"
  shows "snd (fva_pass E m loopless ids p what frame)
         = filled what (fva_step E m loopless (take 3 what)) (set ids) frame"
proof -
  have "set (arrival E (int (length ids) div p) ids) = set ids"
    using assms by (rule mset_eq_setD)
  then show ?thesis
    using foldl_at_set [of what "fva_step E m loopless (take 3 what)" "{}" frame ids]
      foldl_at_set [of what "fva_step E m loopless (take 3 what)" "{}" frame
                      "arrival E (int (length ids) div p) ids"]
    by (simp add: fva_pass_def Let_def filled_empty)
qed

text \<open>
  C3. The pool may hand results back in any order (the arrival order is a permutation
  of what it was given, for every chunk size), and a variability step is a function of
  the model snapshot, the loopless flag, the sense and the reaction. Then for every
  model, reaction subset and degree \<open>K\<close>, whether or not \<open>K\<close> divides the number of
  reactions, the run with degree 1 and the run with degree \<open>K\<close> return the same result:
  the same frame of (minimum, maximum) per listed reaction, or the same error.
\<close>

theorem fva_degree_irrelevant:
  assumes "\<forall>c xs. mset (arrival E c xs) = mset xs"
  shows "snd (flux_variability_analysis E m reaction_list loopless fraction pfba_factor (Some 1))
       = snd (flux_variability_analysis E m reaction_list loopless fraction pfba_factor (Some K))"
  using assms
  by (simp add: flux_variability_analysis_def Let_def case_prod_beta fva_pass_frame
      split: sum.splits option.splits)

theorem fva_degree_irrelevant_witness:
  "snd (flux_variability_analysis (phases_env 2) two_reactions (Some [''R1'', ''R2'']) False 1 None (Some 3))
     = Inr [(''R1'', 0, 1), (''R2'', 0, 1)]
   \<and> snd (flux_variability_analysis (phases_env 2) two_reactions (Some [''R1'', ''R2'']) False 1 None (Some 1))
     = Inr [(''R1'', 0, 1), (''R2'', 0, 1)]"
proof -
  have perm: "\<forall>c xs. mset (arrival (phases_env 2) c xs) = mset xs"
    by (simp add: phases_env_def)
  have seq: "snd (flux_variability_analysis (phases_env 2) two_reactions (Some [''R1'', ''R2'']) False 1 None (Some 1))
     = Inr [(''R1'', 0, 1), (''R2'', 0, 1)]"
    by code_simp
  show ?thesis
    using fva_degree_irrelevant [OF perm, of two_reactions "Some [''R1'', ''R2'']" False 1 None 3] seq
    by simp
qed

lemma get_by_id_member: "i \<in> reaction_id ` set rs \<Longrightarrow> \<exists>r. get_by_id rs i = Inr r"
  by (induction rs) (auto simp: get_by_id_def)

lemma get_by_any_resolves:
  "set l \<subseteq> reaction_id ` set rs \<Longrightarrow> \<exists>found. get_by_any rs l = Inr found"
proof (induction l)
  case Nil
  then show ?case by simp
next
  case (Cons i l)
  then obtain r found where "get_by_id rs i = Inr r" "get_by_any rs l = Inr found"
    using get_by_id_member [of i rs] by auto
  then show ?case by simp
qed

lemma configuration_unbound: "\<not> name_defined ''configuration''"
  by (simp add: name_defined_def module_names_def)

lemma add_pfba_unbound: "\<not> name_defined ''add_pfba''"
  by (simp add: name_defined_def module_names_def)

text \<open>
  C9. With \<open>processes\<close> omitted the call never returns a frame, and fails before any
  solve of the model (no event is recorded). When the reaction list is omitted or names
  only reactions of the model, the failure is the NameError for \<open>configuration\<close>, a name
  the module neither defines nor imports.
\<close>

theorem fva_default_processes_unbound:
  "(\<exists>e. flux_variability_analysis E m reaction_list loopless fraction pfba_factor None = ([], Inl e))
   \<and> ((\<forall>l. reaction_list = Some l \<longrightarrow> set l \<subseteq> reaction_id ` set (reactions m)) \<longrightarrow>
        flux_variability_analysis E m reaction_list loopless fraction pfba_factor None
          = ([], Inl (NameError ''configuration'')))"
proof (intro conjI impI)
  show "\<exists>e. flux_variability_analysis E m reaction_list loopless fraction pfba_factor None = ([], Inl e)"
    by (simp add: flux_variability_analysis_def configuration_unbound Let_def
        split: sum.splits option.splits)
next
  assume "\<forall>l. reaction_list = Some l \<longrightarrow> set l \<subseteq> reaction_id ` set (reactions m)"
  then have "\<exists>listed. (case reaction_list of None \<Rightarrow> Inr (reactions m)
                        | Some l \<Rightarrow> get_by_any (reactions m) l) = Inr listed"
    using get_by_any_resolves [of _ "reactions m"] by (cases reaction_list) auto
  then show "flux_variability_analysis E m reaction_list loopless fraction pfba_factor None
          = ([], Inl (NameError ''configuration''))"
    by (auto simp: flux_variability_analysis_def configuration_unbound Let_def)
qed

theorem fva_default_processes_unbound_witness:
  "flux_variability_analysis (phases_env 2) two_reactions (Some [''R1'', ''R2'']) False 1 None None
     = ([], Inl (NameError ''configuration''))"
  using fva_default_processes_unbound [of "phases_env 2" two_reactions "Some [''R1'', ''R2'']" False 1 None]
  by (simp add: two_reactions_def R1_def R2_def)

lemma fva_pfba_factor_never_returns:
  "\<exists>e. snd (flux_variability_analysis E m reaction_list loopless fraction (Some pf) processes) = Inl e"
  by (simp add: flux_variability_analysis_def configuration_unbound add_pfba_unbound Let_def
      split: sum.splits option.splits)

text \<open>
  C6 at a concrete input: a feasible model, \<open>pfba_factor = 0.5\<close>, one process. The
  baseline solve and the warning happen, then the call stops with the NameError for
  \<open>add_pfba\<close>, which the module never imports: no variability step is run.
\<close>

theorem fva_low_pfba_factor_stops:
  "flux_variability_analysis (phases_env 2) two_reactions None False 1 (Some (1/2)) (Some 1)
     = ([Optimized, Warned low_pfba_factor], Inl (NameError ''add_pfba''))"
  by (simp add: flux_variability_analysis_def phases_env_def add_pfba_unbound Let_def)

section \<open>The weighted objective\<close>



lemma weight_variables_returns:
  assumes "\<forall>v\<in>set vs. \<exists>w. variable_text v = Inr w"
  shows "\<exists>out dict. weight_variables ws vs tempDict = (out, Inr dict)
          \<and> (\<forall>v. map_of dict v = (if v \<in> set vs then Some (coefficient_of ws v) else map_of tempDict v))
          \<and> (\<forall>v\<in>set vs. \<forall>w. variable_text v = Inr w \<longrightarrow> find_weighting ws w = None
                \<longrightarrow> notice w \<in> set out)"
  using assms
proof (induction vs arbitrary: tempDict)
  case Nil
  then show ?case by simp
next
  case (Cons v vs)
  then obtain w where w: "variable_text v = Inr w" by auto
  let ?t = "AList.update v (coefficient_of ws v) tempDict"
  from Cons.IH [of ?t] Cons.prems obtain out dict where
    run: "weight_variables ws vs ?t = (out, Inr dict)" and
    look: "\<forall>v'. map_of dict v' = (if v' \<in> set vs then Some (coefficient_of ws v') else map_of ?t v')" and
    noted: "\<forall>v'\<in>set vs. \<forall>w. variable_text v' = Inr w \<longrightarrow> find_weighting ws w = None
                \<longrightarrow> notice w \<in> set out"
    by auto
  have look': "\<forall>v'. map_of dict v' = (if v' \<in> set (v # vs) then Some (coefficient_of ws v') else map_of tempDict v')"
    using look by (simp add: update_conv')
  show ?case
  proof (cases "find_weighting ws w")
    case None
    then have "weight_variables ws (v # vs) tempDict = (notice w # out, Inr dict)"
      using w run by (simp add: coefficient_of_def)
    then show ?thesis
      using look' noted w None by auto
  next
    case (Some x)
    then have "weight_variables ws (v # vs) tempDict = (out, Inr dict)"
      using w run by (simp add: coefficient_of_def)
    then show ?thesis
      using look' noted w Some by auto
  qed
qed

lemma variables_have_text:
  assumes "\<forall>r\<in>set rs. (\<exists>w. variable_text (forward_variable E r) = Inr w)
                      \<and> (\<exists>w. variable_text (reverse_variable E r) = Inr w)"
  shows "\<forall>v\<in>set (concat (map (\<lambda>rxn. [forward_variable E rxn, reverse_variable E rxn]) rs)).
           \<exists>w. variable_text v = Inr w"
  using assms by auto


lemma add_pfba_Weighted_installs:
  "add_pfba_Weighted E m weightings obj fraction = (out, Inr m1) \<Longrightarrow>
   obj_name (objective m1) = ''_pfba_objective''"
  by (auto simp: add_pfba_Weighted_def Let_def split: sum.splits option.splits if_splits prod.splits)

text \<open>
  C2, as the code has it. After a call of the builder has returned, a second call on
  the resulting model that supplies no auxiliary objective, with weightings that are
  given or that \<open>get_weightings\<close> can compute, fails with the duplicate-objective
  error. And the name collision is the one error the builder raises itself: when the
  weightings resolve, the freeze of the objective succeeds and every flux variable has
  a text, the call fails exactly when the objective in place after the auxiliary
  objective was installed is named \<open>_pfba_objective\<close>.
\<close>

theorem add_pfba_Weighted_duplicate:
  "(add_pfba_Weighted E m weightings obj fraction = (out, Inr m1)
      \<and> (weightings2 = None \<longrightarrow> (\<exists>ws. get_weightings E m1 = Inr ws))
     \<longrightarrow> add_pfba_Weighted E m1 weightings2 None fraction2 = ([], Inl duplicate_objective))
   \<and> ((\<exists>ws. (case weightings of None \<Rightarrow> get_weightings E m | Some ws \<Rightarrow> Inr ws) = Inr ws)
      \<and> fix_objective_as_constraint E (install_objective m obj) fraction = Inr m2
      \<and> (\<forall>r\<in>set (reactions m2). (\<exists>w. variable_text (forward_variable E r) = Inr w)
                      \<and> (\<exists>w. variable_text (reverse_variable E r) = Inr w))
     \<longrightarrow> ((\<exists>out' e. add_pfba_Weighted E m weightings obj fraction = (out', Inl e))
           \<longleftrightarrow> obj_name (objective (install_objective m obj)) = ''_pfba_objective''))"
proof (intro conjI impI)
  assume a: "add_pfba_Weighted E m weightings obj fraction = (out, Inr m1)
      \<and> (weightings2 = None \<longrightarrow> (\<exists>ws. get_weightings E m1 = Inr ws))"
  then have name: "obj_name (objective m1) = ''_pfba_objective''"
    using add_pfba_Weighted_installs by blast
  obtain ws where "(case weightings2 of None \<Rightarrow> get_weightings E m1 | Some ws \<Rightarrow> Inr ws) = Inr ws"
    using a by (cases weightings2) auto
  then show "add_pfba_Weighted E m1 weightings2 None fraction2 = ([], Inl duplicate_objective)"
    using name by (simp add: add_pfba_Weighted_def install_objective_def)
next
  assume b: "(\<exists>ws. (case weightings of None \<Rightarrow> get_weightings E m | Some ws \<Rightarrow> Inr ws) = Inr ws)
      \<and> fix_objective_as_constraint E (install_objective m obj) fraction = Inr m2
      \<and> (\<forall>r\<in>set (reactions m2). (\<exists>w. variable_text (forward_variable E r) = Inr w)
                      \<and> (\<exists>w. variable_text (reverse_variable E r) = Inr w))"
  then obtain ws where ws: "(case weightings of None \<Rightarrow> get_weightings E m | Some ws \<Rightarrow> Inr ws) = Inr ws"
    by blast
  have same: "add_pfba_Weighted E m weightings obj fraction = add_pfba_Weighted E m (Some ws) obj fraction"
    using ws by (simp add: add_pfba_Weighted_def)
  show "(\<exists>out' e. add_pfba_Weighted E m weightings obj fraction = (out', Inl e))
           \<longleftrightarrow> obj_name (objective (install_objective m obj)) = ''_pfba_objective''"
  proof (cases "obj_name (objective (install_objective m obj)) = ''_pfba_objective''")
    case True
    then have "add_pfba_Weighted E m (Some ws) obj fraction = ([], Inl duplicate_objective)"
      by (simp add: add_pfba_Weighted_def)
    then show ?thesis
      using True same by simp
  next
    case False
    let ?vs = "concat (map (\<lambda>rxn. [forward_variable E rxn, reverse_variable E rxn]) (reactions m2))"
    have texts: "\<forall>v\<in>set ?vs. \<exists>w. variable_text v = Inr w"
      using b by (intro variables_have_text) blast
    from weight_variables_returns [OF texts, of ws "[]"] obtain out' dict where
      "weight_variables ws ?vs [] = (out', Inr dict)"
      by blast
    then have "\<exists>out' m'. add_pfba_Weighted E m (Some ws) obj fraction = (out', Inr m')"
      using False b by (simp add: add_pfba_Weighted_def Let_def)
    then show ?thesis
      using False same by auto
  qed
qed

lemma phases_env_texts:
  "\<forall>r\<in>set (reactions fixed_model).
      (\<exists>w. variable_text (forward_variable (phases_env 2) r) = Inr w)
    \<and> (\<exists>w. variable_text (reverse_variable (phases_env 2) r) = Inr w)"
proof -
  have "variable_text (forward_variable (phases_env 2) R1) = Inr ''R1''"
       "variable_text (reverse_variable (phases_env 2) R1) = Inr ''R1_reverse_0a1b2''"
       "variable_text (forward_variable (phases_env 2) R2) = Inr ''R2''"
       "variable_text (reverse_variable (phases_env 2) R2) = Inr ''R2_reverse_0a1b2''"
    by code_simp+
  then show ?thesis
    by (simp add: fixed_model_def two_reactions_def)
qed

lemma phases_env_fix:
  "fix_objective_as_constraint (phases_env 2) (install_objective two_reactions None) 1 = Inr fixed_model"
  by (simp add: phases_env_def install_objective_def fixed_model_def two_reactions_def plain_objective_def)

lemma two_reactions_name:
  "obj_name (objective (install_objective two_reactions None)) \<noteq> ''_pfba_objective''"
  by (simp add: install_objective_def two_reactions_def plain_objective_def)


theorem add_pfba_Weighted_duplicate_witness:
  "add_pfba_Weighted (phases_env 2) two_reactions (Some both_weighted) None 1 = ([], Inr pfba_model)
   \<and> add_pfba_Weighted (phases_env 2) pfba_model (Some both_weighted) None 1
       = ([], Inl duplicate_objective)
   \<and> \<not> (\<exists>out' e. add_pfba_Weighted (phases_env 2) two_reactions (Some both_weighted) None 1 = (out', Inl e))"
proof -
  have first: "add_pfba_Weighted (phases_env 2) two_reactions (Some both_weighted) None 1 = ([], Inr pfba_model)"
    by code_simp
  have name: "obj_name (objective (install_objective two_reactions None)) \<noteq> ''_pfba_objective''"
    by (rule two_reactions_name)
  show ?thesis
    using add_pfba_Weighted_duplicate [of "phases_env 2" two_reactions "Some both_weighted" None 1
        "[]" pfba_model "Some both_weighted" 1 fixed_model]
      first name phases_env_fix phases_env_texts
    by simp
qed

text \<open>
  The claim as written has every second call fail. A second call that supplies an
  auxiliary objective installs it before the name is tested, so the test passes and the
  call returns: here both calls pass the auxiliary objective named
  \<open>Phloem_tx_overall\<close>, and the second call returns the weighted model again.
\<close>

theorem add_pfba_Weighted_auxiliary_counterexample:
  "add_pfba_Weighted (phases_env 2) two_reactions (Some both_weighted) (Some plain_objective) 1
     = ([], Inr pfba_model)
   \<and> add_pfba_Weighted (phases_env 2) pfba_model (Some both_weighted) (Some plain_objective) 1
     = ([], Inr pfba_model)"
  by code_simp

section \<open>The combined table\<close>









end
